theory Spec2Isabelle
  imports Main "HOL-Library.Sublist"
begin

section \<open>Data model\<close>


record product =
  mp_code :: string
  url :: string
  title :: string
  brand :: string

record harvest_result =
  mp_code :: string
  searchable_text :: string
  title :: string
  brand :: string

section \<open>String primitives of Python used by the scripts\<close>

text \<open>\<^verbatim>\<open>s.startswith(p)\<close>.\<close>

fun startswith :: "string \<Rightarrow> string \<Rightarrow> bool" where
  "startswith s [] = True"
| "startswith [] (c # p) = False"
| "startswith (x # s) (c # p) = (x = c \<and> startswith s p)"

text \<open>\<^verbatim>\<open>k in text\<close> on two strings: \<open>k\<close> occurs in \<open>text\<close> as a contiguous run.\<close>

fun str_in :: "string \<Rightarrow> string \<Rightarrow> bool" where
  "str_in k [] = (k = [])"
| "str_in k (c # cs) = (startswith (c # cs) k \<or> str_in k cs)"

text \<open>
  \<^verbatim>\<open>s.lower()\<close>, on the letters A to Z; every other character is left as it is.
\<close>

definition lower_char :: "char \<Rightarrow> char" where
  "lower_char c =
     (case map_of (zip ''ABCDEFGHIJKLMNOPQRSTUVWXYZ'' ''abcdefghijklmnopqrstuvwxyz'') c of
        Some l \<Rightarrow> l
      | None \<Rightarrow> c)"

definition lower :: "string \<Rightarrow> string" where
  "lower s = map lower_char s"

text \<open>\<^verbatim>\<open>sep.join(parts)\<close>.\<close>

fun join :: "string \<Rightarrow> string list \<Rightarrow> string" where
  "join sep [] = []"
| "join sep [p] = p"
| "join sep (p # q # ps) = p @ sep @ join sep (q # ps)"

section \<open>Step 1: paging through the listing\<close>









section \<open>Step 2: fetching one product page with retries\<close>

text \<open>
  What BeautifulSoup gives for a product page, as far as the script looks at it: the
  \<^verbatim>\<open>content\<close> of the description and keywords meta tags (\<open>None\<close> when the tag or the
  attribute is absent), and, for every element that \<^verbatim>\<open>find_all\<close> selects, the string
  \<^verbatim>\<open>str(class) + str(id)\<close> with the element's text.
\<close>

record page =
  meta_desc :: "string option"
  meta_keywords :: "string option"
  product_sections :: "(string \<times> string) list"

text \<open>
  The two handlers of \<^verbatim>\<open>scrape_single_product\<close> tell \<^verbatim>\<open>asyncio.TimeoutError\<close> from
  every other \<^verbatim>\<open>Exception\<close>. One attempt either raises inside \<^verbatim>\<open>session.get\<close>, or gives
  a response with a status; reading and parsing the body of a response then either
  raises or gives the page.
\<close>

datatype exn = TimeoutError | OtherError

datatype body = Malformed exn | Parsed page

datatype outcome = Raised exn | Response int body

text \<open>What a task leaves behind to be observed: its sleeps, in milliseconds, and its GETs.\<close>

datatype event = Sleep nat | Get nat

definition excluded_words :: "string list" where
  "excluded_words = [''similar'', ''viewed'', ''recommend'', ''related'', ''carousel'']"

definition meta_part :: "string option \<Rightarrow> string list" where
  "meta_part m = (case m of None \<Rightarrow> [] | Some c \<Rightarrow> if c \<noteq> [] then [c] else [])"

definition searchable_parts :: "product \<Rightarrow> page \<Rightarrow> string list" where
  "searchable_parts product pg =
     [product.title product, product.brand product]
     @ meta_part (meta_desc pg)
     @ meta_part (meta_keywords pg)
     @ map snd (filter (\<lambda>(section_str, text).
                  \<not> list_ex (\<lambda>word. str_in word (lower section_str)) excluded_words)
                (product_sections pg))"

text \<open>\<^verbatim>\<open>' '.join(str(p) for p in searchable_parts if p).lower()\<close>\<close>

definition build_searchable_text :: "string list \<Rightarrow> string" where
  "build_searchable_text parts = lower (join '' '' (filter (\<lambda>p. p \<noteq> []) parts))"

definition make_result :: "product \<Rightarrow> page \<Rightarrow> harvest_result" where
  "make_result product pg =
     \<lparr>mp_code = product.mp_code product,
      searchable_text = build_searchable_text (searchable_parts product pg),
      title = product.title product,
      brand = product.brand product\<rparr>"

definition continue_with :: "event list \<Rightarrow> event list \<times> 'a \<Rightarrow> event list \<times> 'a" where
  "continue_with evs r = (evs @ fst r, snd r)"

text \<open>
  The loop \<^verbatim>\<open>for attempt in range(3)\<close> over the attempts still to make; \<open>fetch\<close> gives the
  outcome of each attempt of this task. Both \<^verbatim>\<open>except\<close> clauses sleep one second and
  continue while \<^verbatim>\<open>attempt < 2\<close>, and everything from \<^verbatim>\<open>session.get\<close> to the \<^verbatim>\<open>return\<close> of
  the dict is inside the \<^verbatim>\<open>try\<close>. The progress and failure prints are left out.
\<close>

fun attempts :: "(nat \<Rightarrow> outcome) \<Rightarrow> product \<Rightarrow> nat list \<Rightarrow> event list \<times> harvest_result option" where
  "attempts fetch product [] = ([], None)"
| "attempts fetch product (attempt # rest) =
     (case fetch attempt of
        Raised e \<Rightarrow>
          if attempt < 2
          then continue_with [Sleep (200 * attempt), Get attempt, Sleep 1000]
                 (attempts fetch product rest)
          else ([Sleep (200 * attempt), Get attempt], None)
      | Response status b \<Rightarrow>
          if status \<noteq> 200 then
            (if attempt < 2
             then continue_with [Sleep (200 * attempt), Get attempt]
                    (attempts fetch product rest)
             else ([Sleep (200 * attempt), Get attempt], None))
          else
            (case b of
               Malformed e \<Rightarrow>
                 if attempt < 2
                 then continue_with [Sleep (200 * attempt), Get attempt, Sleep 1000]
                        (attempts fetch product rest)
                 else ([Sleep (200 * attempt), Get attempt], None)
             | Parsed pg \<Rightarrow>
                 ([Sleep (200 * attempt), Get attempt], Some (make_result product pg))))"

definition scrape_single_product ::
  "(nat \<Rightarrow> outcome) \<Rightarrow> product \<Rightarrow> event list \<times> harvest_result option" where
  "scrape_single_product fetch product =
     continue_with [Sleep 300] (attempts fetch product [0..<3])"

section \<open>Step 2: the batch\<close>

text \<open>
  \<^verbatim>\<open>asyncio.gather(*tasks, return_exceptions=True)\<close>: the tasks complete in some order,
  each completion fills the slot of its task, and the call returns, once every slot is
  filled, the slots in the order of the tasks; an exception a task raised is an entry
  of the list. \<open>completion\<close> lists the task positions in the order the tasks complete;
  \<open>None\<close> is a \<^verbatim>\<open>gather\<close> that does not return because a task never completes.
\<close>

datatype 'a gathered = Returned 'a | Excn exn

definition gather :: "nat list \<Rightarrow> 'a list \<Rightarrow> 'a list option" where
  "gather completion tasks =
     (let slots = fold (\<lambda>i slots. if i < length tasks then slots[i := Some (tasks ! i)] else slots)
                    completion (replicate (length tasks) None)
      in if list_all (\<lambda>s. s \<noteq> None) slots then Some (map the slots) else None)"

text \<open>\<^verbatim>\<open>enumerate(products, 1)\<close>\<close>

definition enumerate1 :: "'a list \<Rightarrow> (nat \<times> 'a) list" where
  "enumerate1 xs = zip [1..<Suc (length xs)] xs"

text \<open>
  \<open>net i\<close> gives the outcomes of the attempts of the task with index \<open>i\<close> (counted from
  1, as \<^verbatim>\<open>enumerate(products, 1)\<close> does). No raise escapes \<^verbatim>\<open>scrape_single_product\<close>, so
  every task returns.
\<close>

definition kept :: "harvest_result option gathered \<Rightarrow> harvest_result list" where
  "kept r = (case r of Returned (Some d) \<Rightarrow> [d] | Returned None \<Rightarrow> [] | Excn e \<Rightarrow> [])"

definition scrape_products_batch ::
  "nat list \<Rightarrow> (nat \<Rightarrow> nat \<Rightarrow> outcome) \<Rightarrow> product list \<Rightarrow> harvest_result list option" where
  "scrape_products_batch completion net products =
     (let tasks = map (\<lambda>(i, product). Returned (snd (scrape_single_product (net i) product)))
                    (enumerate1 products)
      in case gather completion tasks of
           None \<Rightarrow> None
         | Some results \<Rightarrow> Some (concat (map kept results)))"

text \<open>Every task completes exactly once: \<open>completion\<close> is a permutation of the positions.\<close>

definition complete_schedule :: "nat list \<Rightarrow> nat \<Rightarrow> bool" where
  "complete_schedule completion n = (sort completion = [0..<n])"

section \<open>The keyword filter\<close>

text \<open>
  \<^verbatim>\<open>filter_by_keywords\<close> is the same text in both scripts. Its two arguments are mutable
  lists, so the model runs the body on a record of all its variables and the caller
  can look at the arguments afterwards (\<open>keywords_arg\<close> is the parameter
  \<^verbatim>\<open>keywords\<close>).
\<close>

record filter_vars =
  products_data :: "harvest_result list"
  keywords_arg :: "string list"
  keywords_lower :: "string list"
  matched_mp_codes :: "string list"
  matches :: "string list"

text \<open>The body of \<^verbatim>\<open>for keyword in keywords_lower\<close>.\<close>

definition keyword_step :: "harvest_result \<Rightarrow> string \<Rightarrow> filter_vars \<Rightarrow> filter_vars" where
  "keyword_step product keyword s =
     (if str_in keyword (searchable_text product)
      then s\<lparr>matches := matches s @ [keyword]\<rparr> else s)"

text \<open>The body of \<^verbatim>\<open>for product in products_data\<close>.\<close>

definition product_step :: "harvest_result \<Rightarrow> filter_vars \<Rightarrow> filter_vars" where
  "product_step product s =
     (let s1 = s\<lparr>matches := []\<rparr>;
          s2 = fold (keyword_step product) (keywords_lower s1) s1
      in if matches s2 \<noteq> []
         then s2\<lparr>matched_mp_codes := matched_mp_codes s2 @ [mp_code product]\<rparr>
         else s2)"

definition filter_by_keywords_body :: "harvest_result list \<Rightarrow> string list \<Rightarrow> filter_vars" where
  "filter_by_keywords_body corpus kws =
     (let s0 = \<lparr>products_data = corpus, keywords_arg = kws,
                keywords_lower = map lower kws, matched_mp_codes = [], matches = []\<rparr>
      in fold product_step (products_data s0) s0)"

definition filter_by_keywords :: "harvest_result list \<Rightarrow> string list \<Rightarrow> string list" where
  "filter_by_keywords corpus kws = matched_mp_codes (filter_by_keywords_body corpus kws)"

text \<open>
  The filter in the words of the specification: a harvested entry matches a group when
  one of the group's keywords, lowercased, occurs in the entry's searchable text.
\<close>

definition spec_match :: "string list \<Rightarrow> harvest_result \<Rightarrow> bool" where
  "spec_match kws p = list_ex (\<lambda>k. str_in (lower k) (searchable_text p)) kws"

section \<open>Notions used to state the properties\<close>

text \<open>
  An attempt runs into one of the two \<^verbatim>\<open>except\<close> clauses when \<^verbatim>\<open>session.get\<close> raises or
  when reading and parsing the body of a status 200 response raises.
\<close>

definition attempt_raises :: "outcome \<Rightarrow> bool" where
  "attempt_raises out =
     (case out of
        Raised e \<Rightarrow> True
      | Response status b \<Rightarrow> status = 200 \<and> (case b of Malformed e \<Rightarrow> True | Parsed pg \<Rightarrow> False))"

text \<open>An attempt fails when it raises or the response's status is not 200.\<close>

definition attempt_fails :: "outcome \<Rightarrow> bool" where
  "attempt_fails out =
     (case out of Raised e \<Rightarrow> True | Response status b \<Rightarrow> status \<noteq> 200 \<or> attempt_raises out)"



text \<open>The harvested entry of the task with index \<open>i\<close>, if the task produced one.\<close>

definition task_result :: "(nat \<Rightarrow> nat \<Rightarrow> outcome) \<Rightarrow> nat \<times> product \<Rightarrow> harvest_result option" where
  "task_result net ip = snd (scrape_single_product (net (fst ip)) (snd ip))"



section \<open>Concrete inputs\<close>

text \<open>The corpus and the group of the specification's filter scenario.\<close>

definition scenario_corpus :: "harvest_result list" where
  "scenario_corpus =
     [\<lparr>mp_code = ''A'', searchable_text = ''red sequin gown'', title = [], brand = []\<rparr>,
      \<lparr>mp_code = ''B'', searchable_text = ''plain cotton dress'', title = [], brand = []\<rparr>]"

definition party_keywords :: "string list" where
  "party_keywords = [''sequin'', ''beaded'']"

text \<open>Two item descriptors and a product page.\<close>

definition gown :: product where
  "gown = \<lparr>product.mp_code = ''MP1001'', url = ''https://luxury.tatacliq.com/gown/p-mp1001'',
            product.title = ''sequin dress'', product.brand = ''Atelier''\<rparr>"

definition shirt :: product where
  "shirt = \<lparr>product.mp_code = ''MP1002'', url = ''https://luxury.tatacliq.com/shirt/p-mp1002'',
             product.title = ''Oxford Shirt'', product.brand = ''Atelier''\<rparr>"

definition gown_page :: page where
  "gown_page = \<lparr>meta_desc = Some ''Red SEQUIN Gown'', meta_keywords = None,
                 product_sections = [(''product-details'', ''Floor length''),
                                     (''similar-products'', ''Beaded clutch'')]\<rparr>"

definition error_page :: page where
  "error_page = \<lparr>meta_desc = None, meta_keywords = None, product_sections = []\<rparr>"


text \<open>Status 500 on every attempt.\<close>

definition dead_fetch :: "nat \<Rightarrow> outcome" where
  "dead_fetch attempt = Response 500 (Parsed error_page)"

text \<open>A status 200 response that cannot be parsed on attempt 0, a good page afterwards.\<close>

definition garbled_fetch :: "nat \<Rightarrow> outcome" where
  "garbled_fetch attempt =
     (if attempt = 0 then Response 200 (Malformed OtherError) else Response 200 (Parsed gown_page))"

text \<open>The first task (the gown) fails on every attempt, the second (the shirt) succeeds at once.\<close>

definition sample_net :: "nat \<Rightarrow> nat \<Rightarrow> outcome" where
  "sample_net i attempt = (if i = 1 then dead_fetch attempt else Response 200 (Parsed gown_page))"

text \<open>Every task gets the good page at its first attempt.\<close>

definition good_net :: "nat \<Rightarrow> nat \<Rightarrow> outcome" where
  "good_net i attempt = Response 200 (Parsed gown_page)"




section \<open>Strings\<close>

lemma startswith_iff: "startswith s p \<longleftrightarrow> (\<exists>b. s = p @ b)"
  by (induction s p rule: startswith.induct) auto

lemma str_in_iff: "str_in k t \<longleftrightarrow> (\<exists>a b. t = a @ k @ b)"
proof (induction t)
  case Nil
  show ?case by auto
next
  case (Cons c cs)
  show ?case
  proof
    assume "str_in k (c # cs)"
    then consider "startswith (c # cs) k" | "str_in k cs" by auto
    then show "\<exists>a b. c # cs = a @ k @ b"
    proof cases
      case 1
      then obtain b where "c # cs = k @ b" by (auto simp: startswith_iff)
      then have "c # cs = [] @ k @ b" by simp
      then show ?thesis by blast
    next
      case 2
      then obtain a b where "cs = a @ k @ b" using Cons.IH by auto
      then have "c # cs = (c # a) @ k @ b" by simp
      then show ?thesis by blast
    qed
  next
    assume "\<exists>a b. c # cs = a @ k @ b"
    then obtain a b where ab: "c # cs = a @ k @ b" by auto
    show "str_in k (c # cs)"
    proof (cases a)
      case Nil
      with ab have "startswith (c # cs) k" by (auto simp: startswith_iff)
      then show ?thesis by simp
    next
      case (Cons x a')
      with ab have "cs = a' @ k @ b" by simp
      then have "str_in k cs" using Cons.IH by blast
      then show ?thesis by simp
    qed
  qed
qed



section \<open>The loops of the filter\<close>

lemma keyword_loop:
  "fold (keyword_step p) ks s =
     s\<lparr>matches := matches s @ filter (\<lambda>k. str_in k (searchable_text p)) ks\<rparr>"
  by (induction ks arbitrary: s) (simp_all add: keyword_step_def)

lemma product_step_eq:
  "product_step p s =
     s\<lparr>matches := filter (\<lambda>k. str_in k (searchable_text p)) (keywords_lower s),
       matched_mp_codes := matched_mp_codes s @
          (if list_ex (\<lambda>k. str_in k (searchable_text p)) (keywords_lower s) then [mp_code p] else [])\<rparr>"
  by (simp add: product_step_def keyword_loop Let_def filter_empty_conv list_ex_iff)

lemma product_loop:
  "fold product_step ps s =
     s\<lparr>matches := (if ps = [] then matches s
                    else filter (\<lambda>k. str_in k (searchable_text (last ps))) (keywords_lower s)),
       matched_mp_codes := matched_mp_codes s @
          map mp_code (filter (\<lambda>p. list_ex (\<lambda>k. str_in k (searchable_text p)) (keywords_lower s)) ps)\<rparr>"
proof (induction ps arbitrary: s)
  case Nil
  show ?case by simp
next
  case (Cons p ps)
  show ?case
    unfolding fold_simps o_apply Cons.IH
    by (cases "ps = []") (simp_all add: product_step_eq)
qed

lemma body_eq:
  "filter_by_keywords_body corpus kws =
     \<lparr>products_data = corpus, keywords_arg = kws, keywords_lower = map lower kws,
      matched_mp_codes = map mp_code (filter (spec_match kws) corpus),
      matches = (if corpus = [] then []
                 else filter (\<lambda>k. str_in k (searchable_text (last corpus))) (map lower kws))\<rparr>"
  by (simp add: filter_by_keywords_body_def product_loop spec_match_def list_ex_iff cong: filter_cong)

lemma filter_by_keywords_eq:
  "filter_by_keywords corpus kws = map mp_code (filter (spec_match kws) corpus)"
  by (simp add: filter_by_keywords_def body_eq)

lemma spec_match_iff:
  "spec_match kws p \<longleftrightarrow> (\<exists>k\<in>set kws. \<exists>a b. searchable_text p = a @ lower k @ b)"
  by (simp add: spec_match_def list_ex_iff str_in_iff)

lemma distinct_map_filter_keep: "distinct (map f xs) \<Longrightarrow> distinct (map f (filter P xs))"
  by (induction xs) auto

section \<open>The batch and its tasks\<close>

lemma gather_slots:
  "length slots = length tasks \<Longrightarrow>
   fold (\<lambda>i slots. if i < length tasks then slots[i := Some (tasks ! i)] else slots) completion slots
     = map (\<lambda>i. if i \<in> set completion then Some (tasks ! i) else slots ! i) [0..<length tasks]"
proof (induction completion arbitrary: slots)
  case Nil
  have "map ((!) slots) [0..<length slots] = slots" by (rule map_nth)
  then show ?case using Nil by simp
next
  case (Cons i completion)
  let ?slots' = "if i < length tasks then slots[i := Some (tasks ! i)] else slots"
  have len: "length ?slots' = length tasks" using Cons.prems by simp
  have "map (\<lambda>j. if j \<in> set completion then Some (tasks ! j) else ?slots' ! j) [0..<length tasks]
      = map (\<lambda>j. if j \<in> set (i # completion) then Some (tasks ! j) else slots ! j) [0..<length tasks]"
    using Cons.prems by (intro map_cong) (auto simp: nth_list_update)
  then show ?case using Cons.IH [OF len] by simp
qed

lemma complete_schedule_set: "complete_schedule completion n \<Longrightarrow> set completion = {0..<n}"
proof -
  assume "complete_schedule completion n"
  then have "set (sort completion) = set [0..<n]" by (simp add: complete_schedule_def)
  then show ?thesis by simp
qed

lemma gather_complete:
  assumes "complete_schedule completion (length tasks)"
  shows "gather completion tasks = Some tasks"
proof -
  have s: "set completion = {0..<length tasks}" using assms by (rule complete_schedule_set)
  have "fold (\<lambda>i slots. if i < length tasks then slots[i := Some (tasks ! i)] else slots)
          completion (replicate (length tasks) None)
        = map (\<lambda>i. if i \<in> set completion then Some (tasks ! i) else replicate (length tasks) None ! i)
            [0..<length tasks]"
    by (rule gather_slots) simp
  also have "\<dots> = map (\<lambda>i. Some (tasks ! i)) [0..<length tasks]"
    by (intro map_cong) (auto simp: s)
  also have "\<dots> = map Some tasks"
    by (simp add: map_nth flip: map_map [unfolded comp_def])
  finally show ?thesis
    by (simp add: gather_def list_all_iff comp_def)
qed

lemma continue_with_snd: "snd (continue_with evs r) = snd r"
  by (simp add: continue_with_def)

lemma attempts_fail:
  "(\<forall>a\<in>set as. attempt_fails (fetch a)) \<Longrightarrow> snd (attempts fetch p as) = None"
  by (induction as)
    (auto simp: attempt_fails_def attempt_raises_def continue_with_snd split: outcome.splits body.splits)

lemma attempts_result:
  "snd (attempts fetch p as) = Some r \<Longrightarrow> \<exists>pg. r = make_result p pg"
  by (induction as)
    (auto simp: continue_with_snd split: outcome.splits body.splits if_splits)

lemma scrape_single_product_fail:
  "(\<forall>a<3. attempt_fails (fetch a)) \<Longrightarrow> snd (scrape_single_product fetch p) = None"
  by (simp add: scrape_single_product_def continue_with_snd attempts_fail)

lemma scrape_single_product_id:
  "snd (scrape_single_product fetch p) = Some r \<Longrightarrow> mp_code r = product.mp_code p"
  by (auto simp: scrape_single_product_def continue_with_snd make_result_def dest: attempts_result)

lemma length_enumerate1: "length (enumerate1 xs) = length xs"
  by (simp add: enumerate1_def del: upt_Suc)

lemma nth_enumerate1: "i < length xs \<Longrightarrow> enumerate1 xs ! i = (Suc i, xs ! i)"
  by (simp add: enumerate1_def del: upt_Suc)

lemma map_snd_enumerate1: "map snd (enumerate1 xs) = xs"
  unfolding enumerate1_def by (rule map_snd_zip) (simp del: upt_Suc)

lemma kept_task: "kept (Returned r) = (case r of None \<Rightarrow> [] | Some d \<Rightarrow> [d])"
  by (simp add: kept_def split: option.splits)

lemma batch_eq:
  assumes "complete_schedule completion (length products)"
  shows "scrape_products_batch completion net products
           = Some (concat (map (\<lambda>ip. case task_result net ip of None \<Rightarrow> [] | Some d \<Rightarrow> [d])
                            (enumerate1 products)))"
proof -
  let ?tasks = "map (\<lambda>(i, product). Returned (snd (scrape_single_product (net i) product)))
                  (enumerate1 products)"
  have "complete_schedule completion (length ?tasks)"
    using assms by (simp add: length_enumerate1)
  then have "gather completion ?tasks = Some ?tasks" by (rule gather_complete)
  then show ?thesis
    by (simp add: scrape_products_batch_def Let_def comp_def kept_task task_result_def split_def)
qed

lemma harvested_ids:
  "map mp_code (concat (map (\<lambda>ip. case task_result net ip of None \<Rightarrow> [] | Some d \<Rightarrow> [d]) xs))
     = map (\<lambda>ip. product.mp_code (snd ip)) (filter (\<lambda>ip. task_result net ip \<noteq> None) xs)"
  by (induction xs) (auto simp: task_result_def dest: scrape_single_product_id split: option.splits)

section \<open>Claims about the keyword filter\<close>

text \<open>
  C1. For every corpus and every group, \<open>filter_by_keywords\<close> returns the ids of exactly
  those entries whose searchable text contains one of the group's lowercased keywords as
  a substring, in the order of the corpus, one id per matching entry however many of the
  keywords match (so without repetition when the corpus has no repeated id). For the
  corpus A: "red sequin gown", B: "plain cotton dress" and the keywords sequin, beaded it
  returns A alone.
\<close>

theorem filter_by_keywords_spec:
  "filter_by_keywords corpus kws = map mp_code (filter (spec_match kws) corpus)
   \<and> (\<forall>p. spec_match kws p \<longleftrightarrow> (\<exists>k\<in>set kws. \<exists>a b. searchable_text p = a @ lower k @ b))
   \<and> (distinct (map mp_code corpus) \<longrightarrow> distinct (filter_by_keywords corpus kws))
   \<and> filter_by_keywords scenario_corpus party_keywords = [''A'']"
proof -
  have scenario: "map mp_code (filter (spec_match party_keywords) scenario_corpus) = [''A'']"
    by (simp add: scenario_corpus_def party_keywords_def spec_match_def lower_def lower_char_def)
  show ?thesis
    using scenario
    by (simp add: filter_by_keywords_eq distinct_map_filter_keep spec_match_iff)
qed

theorem filter_by_keywords_spec_witness:
  "filter_by_keywords scenario_corpus [''gown'', ''Sequin'', ''beaded''] = [''A'']
   \<and> distinct (map mp_code scenario_corpus)
   \<and> distinct (filter_by_keywords scenario_corpus [''gown'', ''Sequin'', ''beaded''])"
  using filter_by_keywords_spec [of scenario_corpus "[''gown'', ''Sequin'', ''beaded'']"]
  by (simp add: scenario_corpus_def spec_match_def lower_def lower_char_def)

text \<open>
  C8. The filter is a pure function of the corpus and the group: running its body leaves
  both argument lists as they were, so a second call on the same arguments sees the same
  corpus and the same keywords and returns the same list.
\<close>

theorem filter_by_keywords_pure:
  "products_data (filter_by_keywords_body corpus kws) = corpus
   \<and> keywords_arg (filter_by_keywords_body corpus kws) = kws
   \<and> filter_by_keywords (products_data (filter_by_keywords_body corpus kws))
        (keywords_arg (filter_by_keywords_body corpus kws)) = filter_by_keywords corpus kws"
  by (simp add: body_eq)

theorem filter_by_keywords_pure_witness:
  "products_data (filter_by_keywords_body scenario_corpus party_keywords) = scenario_corpus
   \<and> keywords_arg (filter_by_keywords_body scenario_corpus party_keywords) = party_keywords
   \<and> filter_by_keywords (products_data (filter_by_keywords_body scenario_corpus party_keywords))
        (keywords_arg (filter_by_keywords_body scenario_corpus party_keywords)) = [''A'']"
proof -
  have "filter_by_keywords scenario_corpus party_keywords = [''A'']"
    by (simp add: filter_by_keywords_eq scenario_corpus_def party_keywords_def spec_match_def
        lower_def lower_char_def)
  then show ?thesis
    using filter_by_keywords_pure [of scenario_corpus party_keywords] by simp
qed




section \<open>Claims about the batch\<close>

lemma harvested_ids_listing:
  "map (\<lambda>ip. product.mp_code (snd ip)) (enumerate1 products) = map product.mp_code products"
proof -
  have "map (\<lambda>ip. product.mp_code (snd ip)) (enumerate1 products)
        = map product.mp_code (map snd (enumerate1 products))" by simp
  then show ?thesis by (simp only: map_snd_enumerate1)
qed

lemma enumerate1_member:
  "ip \<in> set (enumerate1 xs) \<longleftrightarrow> (\<exists>j<length xs. ip = (Suc j, xs ! j))"
  by (auto simp: in_set_conv_nth length_enumerate1 nth_enumerate1)

lemma filter_by_keywords_subset:
  "set (filter_by_keywords corpus kws) \<subseteq> set (map mp_code corpus)"
  by (auto simp: filter_by_keywords_eq)

text \<open>
  C2. For every run of the batch over item descriptors with pairwise distinct ids, in
  which every task completes, the batch returns a corpus that is no longer than the
  list of items, every id of the corpus is the id of an input item, and no id occurs
  twice in the corpus.
\<close>

theorem harvest_corpus_invariants:
  assumes "complete_schedule completion (length products)"
    and "distinct (map product.mp_code products)"
  shows "\<exists>corpus. scrape_products_batch completion net products = Some corpus
           \<and> length corpus \<le> length products
           \<and> set (map mp_code corpus) \<subseteq> set (map product.mp_code products)
           \<and> distinct (map mp_code corpus)"
proof -
  let ?corpus = "concat (map (\<lambda>ip. case task_result net ip of None \<Rightarrow> [] | Some d \<Rightarrow> [d])
                           (enumerate1 products))"
  let ?ok = "filter (\<lambda>ip. task_result net ip \<noteq> None) (enumerate1 products)"
  have ids: "map mp_code ?corpus = map (\<lambda>ip. product.mp_code (snd ip)) ?ok"
    by (rule harvested_ids)
  have "length ?corpus = length (map mp_code ?corpus)" by simp
  also have "\<dots> = length ?ok" by (simp only: ids length_map)
  also have "\<dots> \<le> length (enumerate1 products)" by (rule length_filter_le)
  finally have len: "length ?corpus \<le> length products" by (simp only: length_enumerate1)
  have "set (map (\<lambda>ip. product.mp_code (snd ip)) ?ok)
          \<subseteq> set (map (\<lambda>ip. product.mp_code (snd ip)) (enumerate1 products))" by auto
  then have sub: "set (map mp_code ?corpus) \<subseteq> set (map product.mp_code products)"
    by (simp only: ids harvested_ids_listing)
  have "distinct (map (\<lambda>ip. product.mp_code (snd ip)) (enumerate1 products))"
    using assms(2) by (simp only: harvested_ids_listing)
  then have "distinct (map (\<lambda>ip. product.mp_code (snd ip)) ?ok)"
    by (rule distinct_map_filter_keep)
  then have dist: "distinct (map mp_code ?corpus)" by (simp only: ids)
  show ?thesis using batch_eq [OF assms(1), of net] len sub dist by blast
qed

lemma sample_schedule: "complete_schedule [1, 0] (length [gown, shirt])"
  by (simp add: complete_schedule_def upt_rec)

lemma sample_ids: "distinct (map product.mp_code [gown, shirt])"
  by (simp add: gown_def shirt_def)

theorem harvest_corpus_invariants_witness:
  "complete_schedule [1, 0] (length [gown, shirt])
   \<and> distinct (map product.mp_code [gown, shirt])
   \<and> (\<exists>corpus. scrape_products_batch [1, 0] sample_net [gown, shirt] = Some corpus
           \<and> length corpus \<le> length [gown, shirt]
           \<and> set (map mp_code corpus) \<subseteq> set (map product.mp_code [gown, shirt])
           \<and> distinct (map mp_code corpus))"
  using sample_schedule sample_ids
    harvest_corpus_invariants [OF sample_schedule sample_ids, of sample_net]
  by blast

text \<open>
  C9. Whatever the order in which the tasks complete, the corpus lists the entries of
  the items that succeeded in the order of the item descriptors: \<^verbatim>\<open>asyncio.gather\<close> gives
  the results in the order of the tasks and the list comprehension keeps that order.
\<close>

theorem corpus_keeps_listing_order:
  assumes "complete_schedule completion (length products)"
  shows "\<exists>corpus. scrape_products_batch completion net products = Some corpus
           \<and> corpus = concat (map (\<lambda>ip. case task_result net ip of None \<Rightarrow> [] | Some d \<Rightarrow> [d])
                                (enumerate1 products))
           \<and> map mp_code corpus
               = map (\<lambda>ip. product.mp_code (snd ip))
                   (filter (\<lambda>ip. task_result net ip \<noteq> None) (enumerate1 products))
           \<and> subseq (map mp_code corpus) (map product.mp_code products)"
proof -
  let ?corpus = "concat (map (\<lambda>ip. case task_result net ip of None \<Rightarrow> [] | Some d \<Rightarrow> [d])
                           (enumerate1 products))"
  let ?ok = "filter (\<lambda>ip. task_result net ip \<noteq> None) (enumerate1 products)"
  have ids: "map mp_code ?corpus = map (\<lambda>ip. product.mp_code (snd ip)) ?ok"
    by (rule harvested_ids)
  have "subseq (map (\<lambda>ip. product.mp_code (snd ip)) ?ok)
          (map (\<lambda>ip. product.mp_code (snd ip)) (enumerate1 products))"
    by (intro subseq_map subseq_filter_left)
  then have "subseq (map mp_code ?corpus) (map product.mp_code products)"
    by (simp only: ids harvested_ids_listing)
  then show ?thesis using batch_eq [OF assms, of net] ids by blast
qed

lemma upt_3: "[0..<3] = [0, 1, 2]"
  by (simp add: upt_rec)

lemma good_batch:
  "scrape_products_batch [1, 0] good_net [gown, shirt]
     = Some [make_result gown gown_page, make_result shirt gown_page]"
  using batch_eq [OF sample_schedule, of good_net]
  by (simp add: enumerate1_def upt_rec task_result_def scrape_single_product_def
      continue_with_def good_net_def upt_3)

theorem corpus_keeps_listing_order_witness:
  "complete_schedule [1, 0] (length [gown, shirt])
   \<and> scrape_products_batch [1, 0] good_net [gown, shirt]
       = Some [make_result gown gown_page, make_result shirt gown_page]
   \<and> subseq (map mp_code [make_result gown gown_page, make_result shirt gown_page])
        (map product.mp_code [gown, shirt])"
proof -
  obtain corpus where c: "scrape_products_batch [1, 0] good_net [gown, shirt] = Some corpus"
    and s: "subseq (map mp_code corpus) (map product.mp_code [gown, shirt])"
    using corpus_keeps_listing_order [OF sample_schedule, of good_net] by blast
  have "corpus = [make_result gown gown_page, make_result shirt gown_page]"
    using c good_batch by simp
  then show ?thesis using s sample_schedule good_batch by blast
qed

text \<open>
  C3. An item all three of whose attempts fail gives no harvested entry: its task
  returns \<^verbatim>\<open>None\<close>, the batch still returns a corpus, no entry of the corpus carries the
  item's id (the ids being pairwise distinct), so no group's match set contains it, and
  every entry another task produced is in the corpus.
\<close>

theorem failed_item_is_dropped:
  assumes "complete_schedule completion (length products)"
    and "distinct (map product.mp_code products)"
    and "i < length products"
    and "\<forall>attempt<3. attempt_fails (net (Suc i) attempt)"
  shows "snd (scrape_single_product (net (Suc i)) (products ! i)) = None
         \<and> (\<exists>corpus. scrape_products_batch completion net products = Some corpus
               \<and> product.mp_code (products ! i) \<notin> set (map mp_code corpus)
               \<and> (\<forall>kws. product.mp_code (products ! i) \<notin> set (filter_by_keywords corpus kws))
               \<and> (\<forall>j<length products. \<forall>d.
                     snd (scrape_single_product (net (Suc j)) (products ! j)) = Some d
                       \<longrightarrow> d \<in> set corpus))"
proof -
  let ?corpus = "concat (map (\<lambda>ip. case task_result net ip of None \<Rightarrow> [] | Some d \<Rightarrow> [d])
                           (enumerate1 products))"
  let ?ok = "filter (\<lambda>ip. task_result net ip \<noteq> None) (enumerate1 products)"
  have none: "snd (scrape_single_product (net (Suc i)) (products ! i)) = None"
    using assms(4) by (rule scrape_single_product_fail)
  have ids: "map mp_code ?corpus = map (\<lambda>ip. product.mp_code (snd ip)) ?ok"
    by (rule harvested_ids)
  have absent: "product.mp_code (products ! i) \<notin> set (map mp_code ?corpus)"
  proof
    assume "product.mp_code (products ! i) \<in> set (map mp_code ?corpus)"
    then obtain ip where ip: "ip \<in> set (enumerate1 products)" "task_result net ip \<noteq> None"
      and same: "product.mp_code (snd ip) = product.mp_code (products ! i)"
      unfolding ids by auto
    from ip(1) obtain j where j: "j < length products" "ip = (Suc j, products ! j)"
      by (auto simp: enumerate1_member)
    have "map product.mp_code products ! j = map product.mp_code products ! i"
      using same j assms(3) by simp
    then have "j = i"
      using assms(2,3) j(1) by (simp add: nth_eq_iff_index_eq del: nth_map)
    then show False using ip(2) j(2) none by (simp add: task_result_def)
  qed
  have unmatched: "\<forall>kws. product.mp_code (products ! i) \<notin> set (filter_by_keywords ?corpus kws)"
    using absent filter_by_keywords_subset by blast
  have others: "\<forall>j<length products. \<forall>d.
      snd (scrape_single_product (net (Suc j)) (products ! j)) = Some d \<longrightarrow> d \<in> set ?corpus"
  proof (intro allI impI)
    fix j d
    assume j: "j < length products"
      and d: "snd (scrape_single_product (net (Suc j)) (products ! j)) = Some d"
    have "(Suc j, products ! j) \<in> set (enumerate1 products)"
      using j by (auto simp: enumerate1_member)
    moreover have "task_result net (Suc j, products ! j) = Some d"
      using d by (simp add: task_result_def)
    ultimately show "d \<in> set ?corpus" by force
  qed
  show ?thesis
    using none batch_eq [OF assms(1), of net] absent unmatched others by blast
qed

lemma sample_dead: "\<forall>attempt<3. attempt_fails (sample_net (Suc 0) attempt)"
  by (simp add: sample_net_def dead_fetch_def attempt_fails_def)

lemma sample_batch:
  "scrape_products_batch [1, 0] sample_net [gown, shirt] = Some [make_result shirt gown_page]"
  using batch_eq [OF sample_schedule, of sample_net]
  by (simp add: enumerate1_def upt_rec task_result_def scrape_single_product_def
      continue_with_def sample_net_def dead_fetch_def upt_3)

theorem failed_item_is_dropped_witness:
  "complete_schedule [1, 0] (length [gown, shirt])
   \<and> distinct (map product.mp_code [gown, shirt])
   \<and> 0 < length [gown, shirt]
   \<and> attempt_fails (sample_net (Suc 0) 0)
   \<and> attempt_fails (sample_net (Suc 0) 1)
   \<and> attempt_fails (sample_net (Suc 0) 2)
   \<and> snd (scrape_single_product (sample_net (Suc 0)) ([gown, shirt] ! 0)) = None
   \<and> scrape_products_batch [1, 0] sample_net [gown, shirt] = Some [make_result shirt gown_page]
   \<and> product.mp_code ([gown, shirt] ! 0) \<notin> set (filter_by_keywords [make_result shirt gown_page] [''Sequin''])"
proof -
  have pos: "0 < length [gown, shirt]" by simp
  obtain corpus where c: "scrape_products_batch [1, 0] sample_net [gown, shirt] = Some corpus"
    and k: "\<forall>kws. product.mp_code ([gown, shirt] ! 0) \<notin> set (filter_by_keywords corpus kws)"
    and n: "snd (scrape_single_product (sample_net (Suc 0)) ([gown, shirt] ! 0)) = None"
    using failed_item_is_dropped
        [where completion = "[1, 0]" and products = "[gown, shirt]" and i = 0 and net = sample_net,
         OF sample_schedule sample_ids pos sample_dead]
    by blast
  have "corpus = [make_result shirt gown_page]" using c sample_batch by simp
  moreover have "attempt_fails (sample_net (Suc 0) 0)" "attempt_fails (sample_net (Suc 0) 1)"
    "attempt_fails (sample_net (Suc 0) 2)"
    using sample_dead by simp_all
  ultimately show ?thesis using k n sample_schedule sample_ids pos sample_batch by blast
qed

section \<open>Claims about the retries of one item\<close>






text \<open>
  A status 200 response whose body cannot be read or parsed is handled by the same
  \<^verbatim>\<open>except\<close> clauses as a raise of \<^verbatim>\<open>session.get\<close>.
\<close>

lemma malformed_like_raise:
  "attempts (fetch(n := Response 200 (Malformed e))) product as
     = attempts (fetch(n := Raised e)) product as"
  by (induction as) (auto split: outcome.splits body.splits)

text \<open>
  C5, as the code has it. A failure to extract the content of a fetched page is handled
  exactly as a raise of the fetch: while attempts remain (attempt 0 or 1) the item is
  fetched again, after the handler's one-second sleep and the next backoff, and only at
  the last attempt is the failure final, the item then giving no entry.
\<close>

theorem extraction_failure_is_retried:
  "scrape_single_product (fetch(n := Response 200 (Malformed e))) product
     = scrape_single_product (fetch(n := Raised e)) product
   \<and> (n < 2 \<and> (\<forall>m<n. attempt_fails (fetch m)) \<and> fetch n = Response 200 (Malformed e)
        \<longrightarrow> (\<exists>pre post. fst (scrape_single_product fetch product)
               = pre @ [Get n, Sleep 1000, Sleep (200 * Suc n), Get (Suc n)] @ post))
   \<and> ((\<forall>m<2. attempt_fails (fetch m)) \<and> fetch 2 = Response 200 (Malformed e)
        \<longrightarrow> snd (scrape_single_product fetch product) = None)"
proof (intro conjI impI)
  show "scrape_single_product (fetch(n := Response 200 (Malformed e))) product
          = scrape_single_product (fetch(n := Raised e)) product"
    by (simp add: scrape_single_product_def malformed_like_raise)
next
  assume a: "n < 2 \<and> (\<forall>m<n. attempt_fails (fetch m)) \<and> fetch n = Response 200 (Malformed e)"
  then consider "n = 0" | "n = 1" by linarith
  then show "\<exists>pre post. fst (scrape_single_product fetch product)
               = pre @ [Get n, Sleep 1000, Sleep (200 * Suc n), Get (Suc n)] @ post"
  proof cases
    case 1
    have "\<exists>post. fst (scrape_single_product fetch product)
            = [Sleep 300, Sleep 0] @ [Get 0, Sleep 1000, Sleep 200, Get 1] @ post"
      using a 1
      by (auto simp: scrape_single_product_def upt_3 continue_with_def
          split: outcome.splits body.splits)
    then show ?thesis using 1 by (metis One_nat_def mult.right_neutral)
  next
    case 2
    then have f0: "attempt_fails (fetch 0)" using a by simp
    have "\<exists>pre post. fst (scrape_single_product fetch product)
            = pre @ [Get 1, Sleep 1000, Sleep 400, Get 2] @ post"
    proof (cases "attempt_raises (fetch 0)")
      case True
      then have "fst (scrape_single_product fetch product)
            = [Sleep 300, Sleep 0, Get 0, Sleep 1000, Sleep 200] @ [Get 1, Sleep 1000, Sleep 400, Get 2] @ []"
        using a 2
        by (auto simp: scrape_single_product_def upt_3 continue_with_def attempt_raises_def
            split: outcome.splits body.splits)
      then show ?thesis by blast
    next
      case False
      then have "fst (scrape_single_product fetch product)
            = [Sleep 300, Sleep 0, Get 0, Sleep 200] @ [Get 1, Sleep 1000, Sleep 400, Get 2] @ []"
        using a 2 f0
        by (auto simp: scrape_single_product_def upt_3 continue_with_def attempt_raises_def
            attempt_fails_def split: outcome.splits body.splits)
      then show ?thesis by blast
    qed
    then show ?thesis using 2 by (simp add: numeral_2_eq_2)
  qed
next
  assume "(\<forall>m<2. attempt_fails (fetch m)) \<and> fetch 2 = Response 200 (Malformed e)"
  then have "\<forall>a<3. attempt_fails (fetch a)"
    by (auto simp: attempt_fails_def attempt_raises_def less_Suc_eq numeral_3_eq_3 numeral_2_eq_2)
  then show "snd (scrape_single_product fetch product) = None"
    by (rule scrape_single_product_fail)
qed

text \<open>
  C5 as stated fails: the body of attempt 0 cannot be parsed, the item is fetched a
  second time and gives an entry.
\<close>

theorem extraction_failure_terminal_counterexample:
  "garbled_fetch 0 = Response 200 (Malformed OtherError)
   \<and> scrape_single_product garbled_fetch gown
       = ([Sleep 300, Sleep 0, Get 0, Sleep 1000, Sleep 200, Get 1],
          Some (make_result gown gown_page))"
  by (simp add: garbled_fetch_def scrape_single_product_def upt_3 continue_with_def)

theorem extraction_failure_is_retried_witness:
  "(0::nat) < 2
   \<and> garbled_fetch 0 = Response 200 (Malformed OtherError)
   \<and> (\<exists>pre post. fst (scrape_single_product garbled_fetch gown)
         = pre @ [Get 0, Sleep 1000, Sleep (200 * Suc 0), Get (Suc 0)] @ post)"
  using extraction_failure_is_retried [of garbled_fetch 0 OtherError gown]
  by (simp add: garbled_fetch_def)

section \<open>Claims about the paging of the listing\<close>
















end
